theory Spec2Isabelle
  imports Main
begin

unbundle bit_operations_syntax

section \<open>Bytes, errors and the file object\<close>

text \<open>
  A byte is a \<open>char\<close> (the 8-bit type of HOL); a byte string (Python \<open>bytes\<close>,
  \<open>bytearray\<close>) is a \<open>char list\<close>, written as a string literal.  Python's unbounded
  integers are \<open>int\<close>.
\<close>

type_synonym bytes = "char list"

datatype error =
    AssertionError
  | IOError
  | ValueError
  | StructError
  | KeyError
  | TypeError
  | APENoHeaderError
  | APEBadItemError

text \<open>
  An open binary file (mode \<open>r+b\<close>): its contents and the current position.  The field
  \<open>reads\<close> is a ghost trace: every \<open>read\<close> call appends the position it read at and
  the number of bytes it asked for, so that "which places were examined, in which order"
  is a property of the final state.
\<close>

record fileobj =
  content :: bytes
  pos :: nat
  reads :: "(nat \<times> int) list"

definition open_file :: "bytes \<Rightarrow> fileobj" where
  "open_file c = \<lparr>content = c, pos = 0, reads = []\<rparr>"

definition zeros :: "nat \<Rightarrow> bytes" where
  "zeros n = replicate n (CHR 0x00)"

text \<open>
  \<open>fobj.seek(off, whence)\<close>: whence 0 is absolute, 1 relative to the position, 2
  relative to the end.  A negative target raises IOError (EINVAL) and leaves the position
  as it is; a target past the end is allowed.
\<close>

definition seek :: "int \<Rightarrow> nat \<Rightarrow> fileobj \<Rightarrow> error + fileobj" where
  "seek off whence f =
     (let base = (if whence = 0 then 0
                  else if whence = 1 then int (pos f)
                  else int (length (content f)));
          target = base + off
      in if target < 0 then Inl IOError else Inr (f\<lparr>pos := nat target\<rparr>))"

definition tell :: "fileobj \<Rightarrow> nat" where
  "tell f = pos f"

text \<open>
  \<open>fobj.read(n)\<close>: at most \<open>n\<close> bytes from the position, fewer at end of file, none
  past it.  \<open>read(-1)\<close> reads to the end of the file; a count below \<open>-1\<close> raises
  ValueError (the buffered readers of the \<open>io\<close> module).
\<close>

definition read :: "int \<Rightarrow> fileobj \<Rightarrow> error + (bytes \<times> fileobj)" where
  "read n f =
     (if n < - 1 then Inl ValueError
      else let avail = drop (pos f) (content f);
               data = (if n = - 1 then avail else take (nat n) avail)
           in Inr (data, f\<lparr>pos := pos f + length data,
                            reads := reads f @ [(pos f, n)]\<rparr>))"

text \<open>
  \<open>fobj.write(data)\<close>: overwrites from the position and extends the file as needed; a
  gap between the old end and the position is filled with zero bytes.  Writing nothing
  changes nothing.
\<close>

definition fwrite :: "bytes \<Rightarrow> fileobj \<Rightarrow> fileobj" where
  "fwrite data f =
     (if data = [] then f
      else let c = content f;
               padded = c @ zeros (pos f - length c)
           in f\<lparr>content := take (pos f) padded @ data @ drop (pos f + length data) padded,
                pos := pos f + length data\<rparr>)"

text \<open>\<open>fobj.truncate(n)\<close>: cuts the file at \<open>n\<close> (or zero-extends it); the position stays.\<close>

definition ftruncate :: "nat \<Rightarrow> fileobj \<Rightarrow> fileobj" where
  "ftruncate n f = f\<lparr>content := take n (content f) @ zeros (n - length (content f))\<rparr>"

section \<open>The splice primitive (\<open>_util.py\<close>)\<close>

text \<open>
  \<open>mmap.mmap(fileno, length)\<close> followed by \<open>memmap.move(dest, src, count)\<close>.  The flag
  \<open>mmap_ok\<close> says whether the platform maps the file at all; mapping zero bytes and a
  move with a negative or out-of-range argument raise ValueError.  All of these failures
  are caught by the caller's \<open>except\<close> clause, so they are one value, \<open>None\<close>.
\<close>

definition mmap_move :: "bool \<Rightarrow> int \<Rightarrow> int \<Rightarrow> int \<Rightarrow> int \<Rightarrow> bytes \<Rightarrow> bytes option" where
  "mmap_move mmap_ok len dest src count c =
     (if \<not> mmap_ok \<or> len \<le> 0 \<or> int (length c) < len then None
      else if dest < 0 \<or> src < 0 \<or> count < 0 \<or> len < src + count \<or> len < dest + count
      then None
      else Some (take (nat dest) c @ take (nat count) (drop (nat src) c)
                 @ drop (nat dest + nat count) c))"

text \<open>
  The padding loop of the fallback of \<open>insert_bytes\<close>:
  \<^verbatim>\<open>
  while padsize:
      addsize = min(BUFFER_SIZE, padsize)
      fobj.write(b"\x00" * addsize)
      padsize -= addsize
  \<close>
  With a buffer size that is not positive the loop never ends: the result \<open>None\<close>.
\<close>

partial_function (option) pad_loop :: "int \<Rightarrow> int \<Rightarrow> fileobj \<Rightarrow> fileobj option" where
  "pad_loop BUFFER_SIZE padsize f =
     (if padsize = 0 then Some f
      else let addsize = min BUFFER_SIZE padsize
           in pad_loop BUFFER_SIZE (padsize - addsize) (fwrite (zeros (nat addsize)) f))"

text \<open>
  The block-moving loop of the fallback of \<open>insert_bytes\<close>:
  \<^verbatim>\<open>
  while movesize:
      thismove = min(BUFFER_SIZE, movesize)
      fobj.seek(-thismove, 1)
      nextpos = fobj.tell()
      data = fobj.read(thismove)
      fobj.seek(-thismove + size, 1)
      fobj.write(data)
      fobj.seek(nextpos)
      movesize -= thismove
  \<close>
  The result is the exception raised, if any, and the file as it is then.
\<close>

partial_function (option) insert_move_loop ::
    "int \<Rightarrow> int \<Rightarrow> int \<Rightarrow> fileobj \<Rightarrow> (error option \<times> fileobj) option" where
  "insert_move_loop BUFFER_SIZE sz movesize f =
     (if movesize = 0 then Some (None, f)
      else let thismove = min BUFFER_SIZE movesize in
        (case seek (- thismove) 1 f of
           Inl e \<Rightarrow> Some (Some e, f)
         | Inr f1 \<Rightarrow>
             (let nextpos = tell f1 in
              (case read thismove f1 of
                 Inl e \<Rightarrow> Some (Some e, f1)
               | Inr (data, f2) \<Rightarrow>
                   (case seek (- thismove + sz) 1 f2 of
                      Inl e \<Rightarrow> Some (Some e, f2)
                    | Inr f3 \<Rightarrow>
                        (case seek (int nextpos) 0 (fwrite data f3) of
                           Inl e \<Rightarrow> Some (Some e, fwrite data f3)
                         | Inr f5 \<Rightarrow>
                             insert_move_loop BUFFER_SIZE sz (movesize - thismove) f5))))))"

declare pad_loop.simps [code]
declare insert_move_loop.simps [code]

text \<open>
  \<open>insert_bytes(fobj, size, offset, BUFFER_SIZE)\<close>.  The two assertions come first; then
  the file is extended by \<open>size\<close> zero bytes, and the mapped block move is tried.  When
  it fails, the handler truncates the file back, pads it again in blocks and moves the
  tail block by block from the end.  Locking and flushing do not touch contents or
  position and are left out.
\<close>

definition insert_bytes ::
    "bool \<Rightarrow> fileobj \<Rightarrow> int \<Rightarrow> int \<Rightarrow> int \<Rightarrow> (error option \<times> fileobj) option" where
  "insert_bytes mmap_ok fobj sz offset BUFFER_SIZE =
     (if \<not> 0 < sz then Some (Some AssertionError, fobj)
      else if \<not> 0 \<le> offset then Some (Some AssertionError, fobj)
      else case seek 0 2 fobj of
        Inl e \<Rightarrow> Some (Some e, fobj)
      | Inr f0 \<Rightarrow>
          let filesize = int (tell f0);
              movesize = filesize - offset;
              f1 = fwrite (zeros (nat sz)) f0
          in (case mmap_move mmap_ok (filesize + sz) (offset + sz) offset movesize
                     (content f1) of
                Some c \<Rightarrow> Some (None, f1\<lparr>content := c\<rparr>)
              | None \<Rightarrow>
                  (case seek 0 2 (ftruncate (nat filesize) f1) of
                     Inl e \<Rightarrow> Some (Some e, ftruncate (nat filesize) f1)
                   | Inr f2 \<Rightarrow>
                       (case pad_loop BUFFER_SIZE sz f2 of
                          None \<Rightarrow> None
                        | Some f3 \<Rightarrow>
                            (case seek filesize 0 f3 of
                               Inl e \<Rightarrow> Some (Some e, f3)
                             | Inr f4 \<Rightarrow>
                                 insert_move_loop BUFFER_SIZE sz movesize f4)))))"

text \<open>
  The copying loop of the fallback of \<open>delete_bytes\<close>:
  \<^verbatim>\<open>
  fobj.seek(offset + size)
  buf = fobj.read(BUFFER_SIZE)
  while buf:
      fobj.seek(offset)
      fobj.write(buf)
      offset += len(buf)
      fobj.seek(offset + size)
      buf = fobj.read(BUFFER_SIZE)
  \<close>
  One call of \<open>delete_move_loop\<close> is the seek and read before the test of \<open>buf\<close>.
\<close>

partial_function (option) delete_move_loop ::
    "int \<Rightarrow> int \<Rightarrow> int \<Rightarrow> fileobj \<Rightarrow> (error option \<times> fileobj) option" where
  "delete_move_loop BUFFER_SIZE sz offset f =
     (case seek (offset + sz) 0 f of
        Inl e \<Rightarrow> Some (Some e, f)
      | Inr f1 \<Rightarrow>
          (case read BUFFER_SIZE f1 of
             Inl e \<Rightarrow> Some (Some e, f1)
           | Inr (buf, f2) \<Rightarrow>
               (if buf = [] then Some (None, f2)
                else (case seek offset 0 f2 of
                        Inl e \<Rightarrow> Some (Some e, f2)
                      | Inr f3 \<Rightarrow>
                          delete_move_loop BUFFER_SIZE sz (offset + int (length buf))
                            (fwrite buf f3)))))"

declare delete_move_loop.simps [code]

text \<open>
  \<open>delete_bytes(fobj, size, offset, BUFFER_SIZE)\<close>: three assertions, then (only when
  something follows the deleted range) the mapped move or the copying loop, then the
  truncation.
\<close>

definition delete_bytes ::
    "bool \<Rightarrow> fileobj \<Rightarrow> int \<Rightarrow> int \<Rightarrow> int \<Rightarrow> (error option \<times> fileobj) option" where
  "delete_bytes mmap_ok fobj sz offset BUFFER_SIZE =
     (if \<not> 0 < sz then Some (Some AssertionError, fobj)
      else if \<not> 0 \<le> offset then Some (Some AssertionError, fobj)
      else case seek 0 2 fobj of
        Inl e \<Rightarrow> Some (Some e, fobj)
      | Inr f0 \<Rightarrow>
          let filesize = int (tell f0);
              movesize = filesize - offset - sz
          in if \<not> 0 \<le> movesize then Some (Some AssertionError, f0)
             else
               (case (if movesize > 0
                      then (case mmap_move mmap_ok filesize offset (offset + sz) movesize
                                   (content f0) of
                              Some c \<Rightarrow> Some (None, f0\<lparr>content := c\<rparr>)
                            | None \<Rightarrow> delete_move_loop BUFFER_SIZE sz offset f0)
                      else Some (None, f0)) of
                  None \<Rightarrow> None
                | Some (Some e, f1) \<Rightarrow> Some (Some e, f1)
                | Some (None, f1) \<Rightarrow> Some (None, ftruncate (nat (filesize - sz)) f1)))"

section \<open>Locating the tag (\<open>apev2.py\<close>, class \<open>_APEv2Data\<close>)\<close>

text \<open>
  \<open>fobj.read(n)\<close> with a literal count \<open>n\<close>: no exception is possible, so the result is
  the data and the file object.  It is \<open>read\<close> at a natural number.
\<close>

definition read_n :: "nat \<Rightarrow> fileobj \<Rightarrow> bytes \<times> fileobj" where
  "read_n n f =
     (let data = take n (drop (pos f) (content f))
      in (data, f\<lparr>pos := pos f + length data, reads := reads f @ [(pos f, int n)]\<rparr>))"

definition APETAGEX :: bytes where
  "APETAGEX = ''APETAGEX''"

definition HAS_HEADER :: nat where
  "HAS_HEADER = 2 ^ 31"

definition HAS_NO_FOOTER :: nat where
  "HAS_NO_FOOTER = 2 ^ 30"

definition IS_HEADER :: nat where
  "IS_HEADER = 2 ^ 29"

text \<open>
  \<open>cdata.uint_le\<close> is \<open>struct.unpack('<I', data)[0]\<close>: exactly four bytes, least
  significant first; any other length raises \<open>struct.error\<close>.
\<close>

definition uint_le :: "bytes \<Rightarrow> error + nat" where
  "uint_le bs =
     (case bs of
        [b0, b1, b2, b3] \<Rightarrow>
          Inr (of_char b0 + 256 * of_char b1 + 65536 * of_char b2 + 16777216 * of_char b3)
      | _ \<Rightarrow> Inl StructError)"

text \<open>
  The fields of an \<open>_APEv2Data\<close> object.  Offsets are Python integers or \<open>None\<close>;
  \<open>size\<close>, \<open>items\<close> and \<open>version\<close> are \<open>None\<close> until the 32-byte block has been read
  (the fields \<open>size\<close>, \<open>items\<close> and \<open>end\<close> are called \<open>tsize\<close>, \<open>titems\<close> and \<open>tend\<close> here).
\<close>

record apev2data =
  start :: "int option"
  header :: "int option"
  data :: "int option"
  footer :: "int option"
  tend :: "int option"
  metadata :: "int option"
  tag :: "bytes option"
  version :: "bytes option"
  tsize :: "nat option"
  titems :: "nat option"
  flags :: nat
  is_at_start :: bool

definition apev2data_init :: apev2data where
  "apev2data_init =
     \<lparr>start = None, header = None, data = None, footer = None, tend = None,
      metadata = None, tag = None, version = None, tsize = None, titems = None,
      flags = 0, is_at_start = False\<rparr>"

text \<open>
  \<open>int(s)\<close> on a byte string: surrounding ASCII white space is dropped, one sign is
  allowed, and at least one decimal digit must follow; anything else raises ValueError.
  (Digit-group underscores, accepted by later interpreters only, count as malformed.)
\<close>

definition is_space :: "char \<Rightarrow> bool" where
  "is_space c = (c \<in> set [CHR '' '', CHR 0x09, CHR 0x0A, CHR 0x0B, CHR 0x0C, CHR 0x0D])"

definition is_digit :: "char \<Rightarrow> bool" where
  "is_digit c = (48 \<le> (of_char c :: nat) \<and> (of_char c :: nat) \<le> 57)"

definition digits_value :: "bytes \<Rightarrow> int" where
  "digits_value ds = foldl (\<lambda>acc c. 10 * acc + (int (of_char c) - 48)) 0 ds"

definition py_int :: "bytes \<Rightarrow> error + int" where
  "py_int s =
     (let t = rev (dropWhile is_space (rev (dropWhile is_space s)));
          (neg, ds) = (case t of
                         c # r \<Rightarrow> if c = CHR ''-'' then (True, r)
                                  else if c = CHR ''+'' then (False, r)
                                  else (False, t)
                       | [] \<Rightarrow> (False, []))
      in if ds = [] \<or> \<not> list_all is_digit ds then Inl ValueError
         else Inr (if neg then - digits_value ds else digits_value ds))"

text \<open>
  The second \<open>try\<close> block of \<open>__find_metadata\<close>: an APEv2 footer in front of an ID3v1
  tag, possibly with a Lyrics3v2 block between them.  Every exception raised inside is an
  IOError and is swallowed by the handler; so the result is whether the method returned
  from inside the block, and the object and the file as they are then.
  \<^verbatim>\<open>
  fileobj.seek(-128, 2)
  if fileobj.read(3) == b"TAG":
      fileobj.seek(-35, 1)
      if fileobj.read(8) == b"APETAGEX":
          fileobj.seek(-8, 1)
          self.footer = fileobj.tell()
          return
      fileobj.seek(15, 1)
      if fileobj.read(9) == b'LYRICS200':
          fileobj.seek(-15, 1)
          try: offset = int(fileobj.read(6))
          except ValueError:
              raise IOError
          fileobj.seek(-32 - offset - 6, 1)
          if fileobj.read(8) == b"APETAGEX":
              fileobj.seek(-8, 1)
              self.footer = fileobj.tell()
              return
  \<close>
\<close>

definition find_before_id3v1 :: "apev2data \<Rightarrow> fileobj \<Rightarrow> bool \<times> apev2data \<times> fileobj" where
  "find_before_id3v1 d f =
     (case seek (- 128) 2 f of
        Inl e \<Rightarrow> (False, d, f)
      | Inr f1 \<Rightarrow>
          (let (b1, f2) = read_n 3 f1 in
           if b1 = ''TAG'' then
             (case seek (- 35) 1 f2 of
                Inl e \<Rightarrow> (False, d, f2)
              | Inr f3 \<Rightarrow>
                  (let (b2, f4) = read_n 8 f3 in
                   if b2 = APETAGEX then
                     (case seek (- 8) 1 f4 of
                        Inl e \<Rightarrow> (False, d, f4)
                      | Inr f5 \<Rightarrow> (True, d\<lparr>footer := Some (int (tell f5))\<rparr>, f5))
                   else
                     (case seek 15 1 f4 of
                        Inl e \<Rightarrow> (False, d, f4)
                      | Inr f5 \<Rightarrow>
                          (let (b3, f6) = read_n 9 f5 in
                           if b3 = ''LYRICS200'' then
                             (case seek (- 15) 1 f6 of
                                Inl e \<Rightarrow> (False, d, f6)
                              | Inr f7 \<Rightarrow>
                                  (let (b4, f8) = read_n 6 f7 in
                                   (case py_int b4 of
                                      Inl e \<Rightarrow> (False, d, f8)
                                    | Inr offset \<Rightarrow>
                                        (case seek (- 32 - offset - 6) 1 f8 of
                                           Inl e \<Rightarrow> (False, d, f8)
                                         | Inr f9 \<Rightarrow>
                                             (let (b5, f10) = read_n 8 f9 in
                                              if b5 = APETAGEX then
                                                (case seek (- 8) 1 f10 of
                                                   Inl e \<Rightarrow> (False, d, f10)
                                                 | Inr f11 \<Rightarrow>
                                                     (True,
                                                      d\<lparr>footer := Some (int (tell f11))\<rparr>,
                                                      f11))
                                              else (False, d, f10))))))
                           else (False, d, f6)))))
           else (False, d, f2)))"

text \<open>
  \<open>__find_metadata\<close>: a footer in the last 32 bytes; else the block above; else a header
  at offset 0.  A file shorter than 32 bytes makes the first seek fail, and the method
  returns at once.
\<close>

definition find_metadata :: "apev2data \<Rightarrow> fileobj \<Rightarrow> apev2data \<times> fileobj" where
  "find_metadata d f =
     (case seek (- 32) 2 f of
        Inl e \<Rightarrow> (case seek 0 2 f of Inl e' \<Rightarrow> (d, f) | Inr f' \<Rightarrow> (d, f'))
      | Inr f1 \<Rightarrow>
          (let (b1, f2) = read_n 8 f1 in
           if b1 = APETAGEX then
             (case seek (- 8) 1 f2 of
                Inl e \<Rightarrow> (d, f2)
              | Inr f3 \<Rightarrow>
                  (d\<lparr>footer := Some (int (tell f3)), metadata := Some (int (tell f3))\<rparr>, f3))
           else
             (let (returned, d', f3) = find_before_id3v1 d f2 in
              if returned then (d', f3)
              else
                (case seek 0 0 f3 of
                   Inl e \<Rightarrow> (d', f3)
                 | Inr f4 \<Rightarrow>
                     (let (b2, f5) = read_n 8 f4 in
                      if b2 = APETAGEX
                      then (d'\<lparr>is_at_start := True, header := Some 0\<rparr>, f5)
                      else (d', f5))))))"

text \<open>
  The first half of \<open>__fill_missing\<close>: version, size, item count and flags from the
  32-byte block at \<open>metadata\<close>.
  \<^verbatim>\<open>
  fileobj.seek(self.metadata + 8)
  self.version = fileobj.read(4)
  self.size = cdata.uint_le(fileobj.read(4))
  self.items = cdata.uint_le(fileobj.read(4))
  self.flags = cdata.uint_le(fileobj.read(4))
  \<close>
\<close>

definition read_fields :: "apev2data \<Rightarrow> fileobj \<Rightarrow> error + (apev2data \<times> fileobj)" where
  "read_fields d f =
     (case (case metadata d of None \<Rightarrow> Inl TypeError | Some m \<Rightarrow> seek (m + 8) 0 f) of
        Inl e \<Rightarrow> Inl e
      | Inr f1 \<Rightarrow>
          (let (v, f2) = read_n 4 f1; (b1, f3) = read_n 4 f2 in
           case uint_le b1 of
             Inl e \<Rightarrow> Inl e
           | Inr sz \<Rightarrow>
               (let (b2, f4) = read_n 4 f3 in
                case uint_le b2 of
                  Inl e \<Rightarrow> Inl e
                | Inr n \<Rightarrow>
                    (let (b3, f5) = read_n 4 f4 in
                     case uint_le b3 of
                       Inl e \<Rightarrow> Inl e
                     | Inr fl \<Rightarrow>
                         Inr (d\<lparr>version := Some v, tsize := Some sz,
                                titems := Some n, flags := fl\<rparr>, f5)))))"

text \<open>
  \<open>__fill_missing\<close>: after the fields, the other offsets are derived from the header, or
  else from the footer.
  \<^verbatim>\<open>
  if self.header is not None:
      self.data = self.header + 32
      self.end = self.data + self.size
      fileobj.seek(self.end - 32, 0)
      if fileobj.read(8) == b"APETAGEX":
          self.footer = self.end - 32
  elif self.footer is not None:
      self.end = self.footer + 32
      self.data = self.end - self.size
      if self.flags & HAS_HEADER:
          self.header = self.data - 32
      else:
          self.header = self.data
  else: raise APENoHeaderError("No APE tag found")
  \<close>
\<close>

definition fill_missing :: "apev2data \<Rightarrow> fileobj \<Rightarrow> error + (apev2data \<times> fileobj)" where
  "fill_missing d f =
     (case read_fields d f of
        Inl e \<Rightarrow> Inl e
      | Inr (d1, f5) \<Rightarrow>
          (let sz = (case tsize d1 of Some n \<Rightarrow> int n | None \<Rightarrow> 0) in
           case header d1 of
             Some h \<Rightarrow>
               (let d2 = d1\<lparr>data := Some (h + 32), tend := Some (h + 32 + sz)\<rparr> in
                case seek (h + 32 + sz - 32) 0 f5 of
                  Inl e \<Rightarrow> Inl e
                | Inr f6 \<Rightarrow>
                    (let (b4, f7) = read_n 8 f6 in
                     if b4 = APETAGEX
                     then Inr (d2\<lparr>footer := Some (h + 32 + sz - 32)\<rparr>, f7)
                     else Inr (d2, f7)))
           | None \<Rightarrow>
               (case footer d1 of
                  Some ft \<Rightarrow>
                    (let d2 = d1\<lparr>tend := Some (ft + 32), data := Some (ft + 32 - sz)\<rparr> in
                     if flags d1 AND HAS_HEADER \<noteq> 0
                     then Inr (d2\<lparr>header := Some (ft + 32 - sz - 32)\<rparr>, f5)
                     else Inr (d2\<lparr>header := Some (ft + 32 - sz)\<rparr>, f5))
                | None \<Rightarrow> Inl APENoHeaderError)))"

text \<open>
  The loop of \<open>__fix_brokenness\<close>, entered with the file positioned at \<open>start\<close>:
  \<^verbatim>\<open>
  while start > 0:
      try: fileobj.seek(-24, 1)
      except IOError:
          break
      else:
          if fileobj.read(8) == b"APETAGEX":
              fileobj.seek(-8, 1)
              start = fileobj.tell()
          else: break
  \<close>
\<close>

function fix_loop :: "int \<Rightarrow> fileobj \<Rightarrow> error + (int \<times> fileobj)" where
  "fix_loop st f =
     (if st > 0 then
        (case seek (- 24) 1 f of
           Inl e \<Rightarrow> Inr (st, f)
         | Inr f1 \<Rightarrow>
             (case read_n 8 f1 of
                (b, f2) \<Rightarrow>
                  if b = APETAGEX then
                    (case seek (- 8) 1 f2 of
                       Inl e \<Rightarrow> Inl e
                     | Inr f3 \<Rightarrow> fix_loop (int (tell f3)) f3)
                  else Inr (st, f2)))
      else Inr (st, f))"
  by pat_completeness auto
termination
  apply (relation "measure (\<lambda>(st, f). pos f)")
   apply simp
  apply (auto simp: seek_def read_n_def Let_def tell_def APETAGEX_def split: if_splits)
  done

declare fix_loop.simps [simp del]

text \<open>
  \<open>__fix_brokenness\<close>: start from the header (or the data), seek there, run the loop.
  An offset that is still \<open>None\<close> where a number is needed raises TypeError.
\<close>

definition fix_brokenness :: "apev2data \<Rightarrow> fileobj \<Rightarrow> error + (apev2data \<times> fileobj)" where
  "fix_brokenness d f =
     (case (case header d of Some h \<Rightarrow> Some h | None \<Rightarrow> data d) of
        None \<Rightarrow> Inl TypeError
      | Some st \<Rightarrow>
          (case seek st 0 f of
             Inl e \<Rightarrow> Inl e
           | Inr f1 \<Rightarrow>
               (case fix_loop st f1 of
                  Inl e \<Rightarrow> Inl e
                | Inr (st', f2) \<Rightarrow> Inr (d\<lparr>start := Some st'\<rparr>, f2))))"

text \<open>
  \<open>_APEv2Data.__init__\<close>.  \<open>metadata\<close> becomes the larger of the header and footer
  offsets that are set; the tag bytes are the \<open>size\<close> bytes from \<open>data\<close> on.
\<close>

definition APEv2Data :: "fileobj \<Rightarrow> error + (apev2data \<times> fileobj)" where
  "APEv2Data fileobj =
     (let (d, f) = find_metadata apev2data_init fileobj in
      if header d = None \<and> footer d = None then Inr (d, f)
      else
        (let m = (case (header d, footer d) of
                    (Some h, Some ft) \<Rightarrow> max h ft
                  | (Some h, None) \<Rightarrow> h
                  | (None, Some ft) \<Rightarrow> ft
                  | (None, None) \<Rightarrow> 0);
             d1 = d\<lparr>metadata := Some m\<rparr> in
         case fill_missing d1 f of
           Inl e \<Rightarrow> Inl e
         | Inr (d2, f2) \<Rightarrow>
             (case fix_brokenness d2 f2 of
                Inl e \<Rightarrow> Inl e
              | Inr (d3, f3) \<Rightarrow>
                  (case data d3 of
                     None \<Rightarrow> Inr (d3, f3)
                   | Some p \<Rightarrow>
                       (case seek p 0 f3 of
                          Inl e \<Rightarrow> Inl e
                        | Inr f4 \<Rightarrow>
                            (case tsize d3 of
                               None \<Rightarrow> Inl TypeError
                             | Some n \<Rightarrow>
                                 (let (t, f5) = read_n n f4
                                  in Inr (d3\<lparr>tag := Some t\<rparr>, f5))))))))"

section \<open>Tag items and the tag object (\<open>apev2.py\<close>, class \<open>APEv2\<close>)\<close>


record apevalue =
  kind :: nat
  val :: bytes


text \<open>
  \<open>is_valid_apev2_key\<close>.  A key is a text string, held here as its UTF-8 bytes: a
  character outside ASCII is a byte above \<open>~\<close> and makes the key invalid.
\<close>

definition is_valid_apev2_key :: "string \<Rightarrow> bool" where
  "is_valid_apev2_key key =
     (2 \<le> length key \<and> length key \<le> 255
      \<and> list_all (\<lambda>c. (of_char (CHR '' '') :: nat) \<le> of_char c) key
      \<and> list_all (\<lambda>c. (of_char c :: nat) \<le> of_char (CHR ''~'')) key
      \<and> key \<notin> set [''OggS'', ''TAG'', ''ID3'', ''MP+''])"

text \<open>\<open>key.lower()\<close>, on the ASCII letters (it is applied to valid keys only).\<close>

definition lower_char :: "char \<Rightarrow> char" where
  "lower_char c =
     (if (65::nat) \<le> of_char c \<and> (of_char c :: nat) \<le> 90
      then char_of ((of_char c :: nat) + 32) else c)"

definition lower :: "string \<Rightarrow> string" where
  "lower key = map lower_char key"


definition dict_del :: "'k \<Rightarrow> ('k \<times> 'v) list \<Rightarrow> error + ('k \<times> 'v) list" where
  "dict_del k d =
     (if k \<in> set (map fst d) then Inr (filter (\<lambda>kv. fst kv \<noteq> k) d) else Inl KeyError)"

record apev2 =
  casemap :: "(string \<times> string) list"
  tdict :: "(string \<times> apevalue) list"


definition getitem :: "string \<Rightarrow> apev2 \<Rightarrow> error + apevalue" where
  "getitem key t =
     (if \<not> is_valid_apev2_key key then Inl KeyError
      else case map_of (tdict t) (lower key) of None \<Rightarrow> Inl KeyError | Some v \<Rightarrow> Inr v)"

definition delitem :: "string \<Rightarrow> apev2 \<Rightarrow> error + apev2" where
  "delitem key t =
     (if \<not> is_valid_apev2_key key then Inl KeyError
      else case dict_del (lower key) (tdict t) of
             Inl e \<Rightarrow> Inl e
           | Inr d \<Rightarrow> Inr (t\<lparr>tdict := d\<rparr>))"


definition keys :: "apev2 \<Rightarrow> string list" where
  "keys t = map (\<lambda>key. case map_of (casemap t) key of Some c \<Rightarrow> c | None \<Rightarrow> key)
                (map fst (tdict t))"

text \<open>Mapping a function that may raise over a list: the first exception ends it.\<close>

fun map_raise :: "('a \<Rightarrow> error + 'b) \<Rightarrow> 'a list \<Rightarrow> error + 'b list" where
  "map_raise g [] = Inr []"
| "map_raise g (x # xs) =
     (case g x of
        Inl e \<Rightarrow> Inl e
      | Inr y \<Rightarrow> (case map_raise g xs of Inl e \<Rightarrow> Inl e | Inr ys \<Rightarrow> Inr (y # ys)))"

text \<open>\<open>DictMixin.values\<close>, \<open>items\<close> and \<open>clear\<close>, all through \<open>keys()\<close>.\<close>

definition tvalues :: "apev2 \<Rightarrow> error + apevalue list" where
  "tvalues t = map_raise (\<lambda>k. getitem k t) (keys t)"

definition items :: "apev2 \<Rightarrow> error + (string \<times> apevalue) list" where
  "items t = (case tvalues t of Inl e \<Rightarrow> Inl e | Inr vs \<Rightarrow> Inr (zip (keys t) vs))"

fun del_all :: "string list \<Rightarrow> apev2 \<Rightarrow> error + apev2" where
  "del_all [] t = Inr t"
| "del_all (k # ks) t = (case delitem k t of Inl e \<Rightarrow> Inl e | Inr t' \<Rightarrow> del_all ks t')"

definition clear :: "apev2 \<Rightarrow> error + apev2" where
  "clear t = del_all (keys t) t"

text \<open>
  \<open>struct.pack('<I', n)\<close>: four bytes, least significant first; a number outside
  \<open>0 .. 2^32 - 1\<close> raises \<open>struct.error\<close>.
\<close>

definition pack_uint_le :: "int \<Rightarrow> error + bytes" where
  "pack_uint_le n =
     (if n < 0 \<or> 4294967296 \<le> n then Inl StructError
      else Inr [char_of (nat n), char_of (nat n div 256),
                char_of (nat n div 65536), char_of (nat n div 16777216)])"

text \<open>\<open>struct_pack("<8s 4I 8x", b"APETAGEX", 2000, size, count, flags)\<close>.\<close>

definition pack_block :: "int \<Rightarrow> int \<Rightarrow> int \<Rightarrow> error + bytes" where
  "pack_block sz n fl =
     (case pack_uint_le 2000 of
        Inl e \<Rightarrow> Inl e
      | Inr b1 \<Rightarrow>
          (case pack_uint_le sz of
             Inl e \<Rightarrow> Inl e
           | Inr b2 \<Rightarrow>
               (case pack_uint_le n of
                  Inl e \<Rightarrow> Inl e
                | Inr b3 \<Rightarrow>
                    (case pack_uint_le fl of
                       Inl e \<Rightarrow> Inl e
                     | Inr b4 \<Rightarrow> Inr (APETAGEX @ b1 @ b2 @ b3 @ b4 @ zeros 8)))))"

text \<open>
  \<open>_APEValue._internal(key)\<close>: value length, kind shifted left by one, the key, a NUL,
  the value.
\<close>

definition internal :: "apevalue \<Rightarrow> string \<Rightarrow> error + bytes" where
  "internal v key =
     (case pack_uint_le (int (length (val v))) of
        Inl e \<Rightarrow> Inl e
      | Inr b1 \<Rightarrow>
          (case pack_uint_le (int (push_bit 1 (kind v))) of
             Inl e \<Rightarrow> Inl e
           | Inr b2 \<Rightarrow> Inr (b1 @ b2 @ key @ [CHR 0x00] @ val v)))"






text \<open>
  The serialized items of \<open>save\<close>: \<open>sorted((v._internal(k) for k, v in self.items()),
  key=len)\<close>, a stable sort.
\<close>

definition sorted_tags :: "apev2 \<Rightarrow> error + bytes list" where
  "sorted_tags t =
     (case items t of
        Inl e \<Rightarrow> Inl e
      | Inr kvs \<Rightarrow>
          (case map_raise (\<lambda>(k, v). internal v k) kvs of
             Inl e \<Rightarrow> Inl e
           | Inr ts \<Rightarrow> Inr (sort_key length ts)))"

text \<open>
  The writing half of \<open>save\<close>, from \<open>fileobj.seek(0, 2)\<close> on: header, items, footer at
  the end of the file.  The footer is packed after the header and the items are written.
\<close>

definition write_tag :: "apev2 \<Rightarrow> fileobj \<Rightarrow> error option \<times> fileobj" where
  "write_tag t f =
     (case seek 0 2 f of
        Inl e \<Rightarrow> (Some e, f)
      | Inr f1 \<Rightarrow>
          (case sorted_tags t of
             Inl e \<Rightarrow> (Some e, f1)
           | Inr ts \<Rightarrow>
               (let num_tags = int (length ts); tags = concat ts in
                case pack_block (int (length tags) + 32) num_tags
                       (int (HAS_HEADER OR IS_HEADER)) of
                  Inl e \<Rightarrow> (Some e, f1)
                | Inr header_bytes \<Rightarrow>
                    (let f2 = fwrite tags (fwrite header_bytes f1) in
                     case pack_block (int (length tags) + 32) num_tags (int HAS_HEADER) of
                       Inl e \<Rightarrow> (Some e, f2)
                     | Inr footer_bytes \<Rightarrow> (None, fwrite footer_bytes f2)))))"

text \<open>
  \<open>APEv2.save\<close>: locate the old tag; a tag at the start is cut out with
  \<open>delete_bytes\<close>, any other is cut off by truncating the file at its start; then the
  new tag is written at the end.  An exception of the locator leaves the contents as they
  were (it only reads).
\<close>

definition save :: "bool \<Rightarrow> apev2 \<Rightarrow> fileobj \<Rightarrow> (error option \<times> fileobj) option" where
  "save mmap_ok t fileobj =
     (case APEv2Data fileobj of
        Inl e \<Rightarrow> Some (Some e, fileobj)
      | Inr (d, f) \<Rightarrow>
          if is_at_start d then
            (case (tend d, start d) of
               (Some e, Some s) \<Rightarrow>
                 (case delete_bytes mmap_ok f (e - s) s 65536 of
                    None \<Rightarrow> None
                  | Some (Some er, f1) \<Rightarrow> Some (Some er, f1)
                  | Some (None, f1) \<Rightarrow> Some (write_tag t f1))
             | _ \<Rightarrow> Some (Some TypeError, f))
          else
            (case start d of
               Some s \<Rightarrow>
                 (case seek s 0 f of
                    Inl er \<Rightarrow> Some (Some er, f)
                  | Inr f1 \<Rightarrow> Some (write_tag t (ftruncate (tell f1) f1)))
             | None \<Rightarrow> Some (write_tag t f)))"

text \<open>
  \<open>APEv2.delete\<close>: cut the located span out of the file, then empty the object.
\<close>

definition delete ::
    "bool \<Rightarrow> apev2 \<Rightarrow> fileobj \<Rightarrow> ((error option \<times> apev2) \<times> fileobj) option" where
  "delete mmap_ok t fileobj =
     (case APEv2Data fileobj of
        Inl e \<Rightarrow> Some ((Some e, t), fileobj)
      | Inr (d, f) \<Rightarrow>
          (case (if start d \<noteq> None \<and> tsize d \<noteq> None
                 then (case (tend d, start d) of
                         (Some e, Some s) \<Rightarrow> delete_bytes mmap_ok f (e - s) s 65536
                       | _ \<Rightarrow> Some (Some TypeError, f))
                 else Some (None, f)) of
             None \<Rightarrow> None
           | Some (Some er, f1) \<Rightarrow> Some ((Some er, t), f1)
           | Some (None, f1) \<Rightarrow>
               (case clear t of
                  Inl er \<Rightarrow> Some ((Some er, t), f1)
                | Inr t1 \<Rightarrow> Some ((None, t1), f1))))"

text \<open>
  What a caller can observe of a splice: whether it returned (\<open>None\<close> is a loop that
  never ends), the exception if any, and the bytes of the file afterwards.
\<close>

definition outcome :: "(error option \<times> fileobj) option \<Rightarrow> (error option \<times> bytes) option" where
  "outcome r = map_option (\<lambda>(e, g). (e, content g)) r"



section \<open>The locator as the specification words it\<close>






section \<open>Properties of the splice primitive\<close>

subsection \<open>File operations on a file split into blocks\<close>

lemma seek_cur:
  "0 \<le> int (pos f) + off \<Longrightarrow> seek off (Suc 0) f = Inr (f\<lparr>pos := nat (int (pos f) + off)\<rparr>)"
  by (simp add: seek_def)

lemma seek_set:
  "0 \<le> off \<Longrightarrow> seek off 0 f = Inr (f\<lparr>pos := nat off\<rparr>)"
  by (simp add: seek_def)

lemma seek_end:
  "0 \<le> int (length (content f)) + off \<Longrightarrow>
   seek off 2 f = Inr (f\<lparr>pos := nat (int (length (content f)) + off)\<rparr>)"
  by (simp add: seek_def)

lemma read_block:
  assumes "content f = A @ X @ Y" "pos f = length A"
  shows "read (int (length X)) f =
         Inr (X, f\<lparr>pos := length A + length X, reads := reads f @ [(length A, int (length X))]\<rparr>)"
  using assms by (simp add: read_def Let_def)

lemma fwrite_block:
  assumes "content f = A @ X @ Y" "pos f = length A" "length D = length X" "D \<noteq> []"
  shows "fwrite D f = f\<lparr>content := A @ D @ Y, pos := length A + length D\<rparr>"
  using assms by (simp add: fwrite_def Let_def zeros_def)

lemma take_app_take:
  "n \<le> length X \<Longrightarrow> take n (M @ take n X @ Y) = take n (M @ X)"
  by (simp add: min_absorb2)

lemma insert_move_loop_lists:
  assumes B: "0 < B" and S: "0 < S"
  shows "content f = A @ M @ R \<Longrightarrow> pos f = length A + length M \<Longrightarrow> nat S \<le> length R \<Longrightarrow>
     \<exists>f'. insert_move_loop B S (int (length M)) f = Some (None, f')
        \<and> content f' = A @ take (nat S) (M @ R) @ M @ drop (nat S) R \<and> pos f' = length A"
proof (induction "length M" arbitrary: M R f rule: less_induct)
  case less
  show ?case
  proof (cases "M = []")
    case True
    then show ?thesis using less.prems
      by (subst insert_move_loop.simps) simp
  next
    case False
    define T where "T = nat (min B (int (length M)))"
    have T0: "0 < T" and TM: "T \<le> length M" and Tint: "min B (int (length M)) = int T"
      using B False by (auto simp: T_def min_def)
    define M1 where "M1 = take (length M - T) M"
    define M2 where "M2 = drop (length M - T) M"
    have M: "M = M1 @ M2" by (simp add: M1_def M2_def)
    have lM2: "length M2 = T" using TM by (simp add: M2_def)
    have lM1: "length M1 = length M - T" by (simp add: M1_def)
    have lM: "length M = length M1 + T" using TM lM1 by simp
    have M2ne: "M2 \<noteq> []" using lM2 T0 by auto
    define X where "X = M2 @ R"
    have lX: "nat S \<le> length X" using less.prems by (simp add: X_def)
    define R1 where "R1 = take (nat S) X @ M2 @ drop (nat S) R"
    define f1 where "f1 = f\<lparr>pos := length A + length M1\<rparr>"
    define f2 where "f2 = f1\<lparr>pos := length A + length M1 + T,
                            reads := reads f1 @ [(length A + length M1, int T)]\<rparr>"
    define f3 where "f3 = f2\<lparr>pos := length A + length M1 + nat S\<rparr>"
    define f4 where "f4 = f3\<lparr>content := A @ M1 @ R1, pos := length A + length M1 + nat S + T\<rparr>"
    define f5 where "f5 = f4\<lparr>pos := length A + length M1\<rparr>"
    have s1: "seek (- int T) 1 f = Inr f1"
      using less.prems lM by (simp add: seek_cur f1_def)
    have c1: "content f1 = (A @ M1) @ M2 @ R" "pos f1 = length (A @ M1)"
      using less.prems M by (simp_all add: f1_def)
    have s2: "read (int T) f1 = Inr (M2, f2)"
      using read_block[OF c1] by (simp add: lM2 f2_def)
    have s3: "seek (- int T + S) 1 f2 = Inr f3"
      using S by (simp add: seek_cur f2_def f3_def nat_add_distrib)
    have dS: "drop (nat S) X = take T (drop (nat S) X) @ drop (nat S) R"
    proof -
      have "drop T (drop (nat S) X) = drop (nat S) (drop T X)"
        by (simp add: add.commute)
      also have "drop T X = R" by (simp add: X_def lM2)
      finally have "drop T (drop (nat S) X) = drop (nat S) R" .
      then show ?thesis by (metis append_take_drop_id)
    qed
    have lT: "length (take T (drop (nat S) X)) = T"
      using less.prems by (simp add: X_def lM2)
    have cf3: "content f3 = A @ M1 @ X"
      using less.prems M by (simp add: f3_def f2_def f1_def X_def)
    have "X = take (nat S) X @ take T (drop (nat S) X) @ drop (nat S) R"
      using dS by (metis append_take_drop_id)
    with cf3 have c3': "content f3 = (A @ M1 @ take (nat S) X) @ take T (drop (nat S) X) @ drop (nat S) R"
      by simp
    have p3: "pos f3 = length (A @ M1 @ take (nat S) X)"
      using lX by (simp add: f3_def min_absorb2)
    have s4: "fwrite M2 f3 = f4"
      using fwrite_block[OF c3' p3 _ M2ne] lT lM2 lX
      by (simp add: f4_def R1_def min_absorb2)
    have s5: "seek (int (length A + length M1)) 0 f4 = Inr f5"
      by (simp add: seek_set f5_def)
    have tell1: "tell f1 = length A + length M1" by (simp add: tell_def f1_def)
    have unfold: "insert_move_loop B S (int (length M)) f = insert_move_loop B S (int (length M1)) f5"
    proof -
      have ne: "int (length M) \<noteq> 0" using False by simp
      have sub: "int (length M) - int T = int (length M1)" using lM by simp
      show ?thesis
        apply (subst insert_move_loop.simps)
        apply (simp only: ne if_False Let_def Tint s1 sum.case tell1 s2 prod.case s3 s4 s5 sub)
        done
    qed
    have lt: "length M1 < length M" using lM T0 by simp
    have p5: "content f5 = A @ M1 @ R1" "pos f5 = length A + length M1"
      by (simp_all add: f5_def f4_def)
    have lR1: "nat S \<le> length R1" using lX by (simp add: R1_def min_absorb2)
    from less.hyps[OF lt p5 lR1] obtain f' where
      f': "insert_move_loop B S (int (length M1)) f5 = Some (None, f')"
          "content f' = A @ take (nat S) (M1 @ R1) @ M1 @ drop (nat S) R1" "pos f' = length A"
      by blast
    have "take (nat S) (M1 @ R1) = take (nat S) (M1 @ X)"
      unfolding R1_def by (rule take_app_take[OF lX])
    moreover have "M1 @ X = M @ R" by (simp add: M X_def)
    ultimately have e1: "take (nat S) (M1 @ R1) = take (nat S) (M @ R)" by simp
    have e2: "drop (nat S) R1 = M2 @ drop (nat S) R"
      using lX by (simp add: R1_def min_absorb2)
    show ?thesis using f' unfold e1 e2 M by simp
  qed
qed


lemma fwrite_append:
  assumes "pos f = length (content f)"
  shows "fwrite D f = f\<lparr>content := content f @ D, pos := length (content f) + length D\<rparr>"
  using assms by (cases "D = []") (simp_all add: fwrite_def Let_def zeros_def)

lemma zeros_add: "zeros (a + b) = zeros a @ zeros b"
  by (simp add: zeros_def replicate_add)

lemma length_zeros [simp]: "length (zeros n) = n"
  by (simp add: zeros_def)

lemma pad_loop_ok:
  assumes B: "0 < B"
  shows "pos f = length (content f) \<Longrightarrow>
         pad_loop B (int n) f =
           Some (f\<lparr>content := content f @ zeros n, pos := length (content f) + n\<rparr>)"
proof (induction n arbitrary: f rule: less_induct)
  case (less n)
  show ?case
  proof (cases "n = 0")
    case True
    then show ?thesis using less.prems
      by (subst pad_loop.simps) (simp add: zeros_def)
  next
    case False
    define a where "a = nat (min B (int n))"
    have a0: "0 < a" and an: "a \<le> n" and aint: "min B (int n) = int a"
      using B False by (auto simp: a_def min_def)
    define f1 where "f1 = f\<lparr>content := content f @ zeros a, pos := length (content f) + a\<rparr>"
    have w: "fwrite (zeros (nat (int a))) f = f1"
      using fwrite_append[OF less.prems, of "zeros a"] by (simp add: f1_def)
    have ne: "int n \<noteq> 0" using False by simp
    have sub: "int n - int a = int (n - a)" using an by simp
    have unfold: "pad_loop B (int n) f = pad_loop B (int (n - a)) f1"
      apply (subst pad_loop.simps)
      apply (simp only: ne if_False Let_def aint w sub)
      done
    have lt: "n - a < n" using a0 False by simp
    have p1: "pos f1 = length (content f1)" by (simp add: f1_def)
    have "zeros a @ zeros (n - a) = zeros n" using an zeros_add[of a "n - a"] by simp
    then show ?thesis using less.IH[OF lt p1] unfold an
      by (simp add: f1_def)
  qed
qed

lemma read_avail:
  assumes "content f = A @ Y" "pos f = length A" "0 \<le> n"
  shows "read n f = Inr (take (nat n) Y,
           f\<lparr>pos := length A + length (take (nat n) Y), reads := reads f @ [(length A, n)]\<rparr>)"
  using assms by (simp add: read_def Let_def)

lemma delete_move_loop_lists:
  assumes B: "0 < B"
  shows "content f = A @ D @ M \<Longrightarrow> length D = nat S \<Longrightarrow> 0 \<le> S \<Longrightarrow>
     \<exists>f'. delete_move_loop B S (int (length A)) f = Some (None, f')
        \<and> content f' = A @ M @ drop (length M) (D @ M)"
proof (induction "length M" arbitrary: M A D f rule: less_induct)
  case less
  define f1 where "f1 = f\<lparr>pos := length A + length D\<rparr>"
  define M1 where "M1 = take (nat B) M"
  define M2 where "M2 = drop (nat B) M"
  have M: "M = M1 @ M2" by (simp add: M1_def M2_def)
  define f2 where "f2 = f1\<lparr>pos := length (A @ D) + length M1,
                         reads := reads f1 @ [(length (A @ D), B)]\<rparr>"
  have s1: "seek (int (length A) + S) 0 f = Inr f1"
    using less.prems by (simp add: seek_set f1_def nat_add_distrib)
  have c1: "content f1 = (A @ D) @ M" "pos f1 = length (A @ D)"
    using less.prems by (simp_all add: f1_def)
  have s2: "read B f1 = Inr (M1, f2)"
    using read_avail[OF c1, of B] B by (simp add: M1_def f2_def)
  show ?case
  proof (cases "M = []")
    case True
    then have "M1 = []" by (simp add: M1_def)
    then have "delete_move_loop B S (int (length A)) f = Some (None, f2)"
      apply (subst delete_move_loop.simps)
      apply (simp only: s1 sum.case s2 prod.case)
      apply simp
      done
    moreover have "content f2 = A @ D" using less.prems True by (simp add: f2_def f1_def)
    ultimately show ?thesis using True by simp
  next
    case False
    then have M1ne: "M1 \<noteq> []" using B by (simp add: M1_def)
    define f3 where "f3 = f2\<lparr>pos := length A\<rparr>"
    define D' where "D' = drop (length M1) (D @ M1)"
    define f4 where "f4 = f3\<lparr>content := (A @ M1) @ D' @ M2, pos := length A + length M1\<rparr>"
    have s3: "seek (int (length A)) 0 f2 = Inr f3"
      by (simp add: seek_set f3_def)
    have cf3: "content f3 = A @ D @ M1 @ M2" using less.prems M
      by (simp add: f3_def f2_def f1_def)
    define P where "P = take (length M1) (D @ M1)"
    have lP: "length P = length M1" by (simp add: P_def)
    have td: "P @ D' = D @ M1"
      unfolding D'_def P_def by (rule append_take_drop_id)
    have split: "D @ M1 @ M2 = P @ D' @ M2"
      using td by (metis append.assoc)
    have c3: "content f3 = A @ P @ D' @ M2" "pos f3 = length A"
      using cf3 split by (simp_all add: f3_def)
    have s4: "fwrite M1 f3 = f4"
      using fwrite_block[OF c3 _ M1ne] lP by (simp add: f4_def)
    have unfold: "delete_move_loop B S (int (length A)) f
                  = delete_move_loop B S (int (length (A @ M1))) f4"
      apply (subst delete_move_loop.simps)
      apply (simp only: s1 sum.case s2 prod.case M1ne if_False s3 s4 length_append of_nat_add)
      done
    have lt: "length M2 < length M" using M M1ne by simp
    have c4: "content f4 = (A @ M1) @ D' @ M2" by (simp add: f4_def)
    have lD': "length D' = nat S" using less.prems by (simp add: D'_def)
    from less.hyps[OF lt c4 lD' less.prems(3)] obtain f' where
      f': "delete_move_loop B S (int (length (A @ M1))) f4 = Some (None, f')"
          "content f' = (A @ M1) @ M2 @ drop (length M2) (D' @ M2)"
      by blast
    have "D' @ M2 = drop (length M1) (D @ M)"
    proof -
      have "D @ M = P @ D' @ M2" using split by (simp only: M)
      then have "drop (length M1) (D @ M) = drop (length P) (P @ D' @ M2)"
        by (simp only: lP)
      then show ?thesis by simp
    qed
    then have "drop (length M2) (D' @ M2) = drop (length M2) (drop (length M1) (D @ M))"
      by simp
    also have "\<dots> = drop (length M) (D @ M)"
      by (simp only: drop_drop M length_append add.commute)
    finally show ?thesis using f' unfold M by simp
  qed
qed


lemma ftruncate_prefix:
  "content f = F @ Z \<Longrightarrow> ftruncate (length F) f = f\<lparr>content := F\<rparr>"
  by (simp add: ftruncate_def zeros_def)

lemma mmap_move_insert:
  assumes "0 < S"
  shows "mmap_move mm (int (length (A @ M)) + S) (int (length A) + S) (int (length A))
           (int (length (A @ M)) - int (length A)) (A @ M @ zeros (nat S))
         = (if mm then Some (A @ take (nat S) (M @ zeros (nat S)) @ M) else None)"
proof -
  have n1: "nat (int (length A) + S) = length A + nat S" using assms by (simp add: nat_add_distrib)
  have t1: "take (length A + nat S) (A @ M @ zeros (nat S)) = A @ take (nat S) (M @ zeros (nat S))"
    by simp
  have t2: "take (length M) (drop (length A + 0) (A @ M @ zeros (nat S))) = M"
    by (simp only: drop_append) simp
  have t3: "drop (length A + nat S + length M) (A @ M @ zeros (nat S)) = []"
    by simp
  show ?thesis using assms t1 t2 t3 by (simp add: mmap_move_def n1)
qed

lemma insert_bytes_ok:
  assumes B: "0 < B" and S: "0 < S" and o0: "0 \<le> off" and o1: "off \<le> int (length (content f))"
  shows "\<exists>f'. insert_bytes mm f S off B = Some (None, f')
          \<and> content f' = take (nat off) (content f)
                @ take (nat S) (drop (nat off) (content f) @ zeros (nat S))
                @ drop (nat off) (content f)"
proof -
  define A where "A = take (nat off) (content f)"
  define M where "M = drop (nat off) (content f)"
  define Z where "Z = zeros (nat S)"
  have F: "content f = A @ M" by (simp add: A_def M_def)
  have lA: "int (length A) = off" using o0 o1 by (simp add: A_def)
  define f0 where "f0 = f\<lparr>pos := length (A @ M)\<rparr>"
  define f1 where "f1 = f0\<lparr>content := (A @ M) @ Z, pos := length (A @ M) + length Z\<rparr>"
  have s0: "seek 0 2 f = Inr f0" by (simp add: seek_end f0_def F)
  have t0: "int (tell f0) = int (length (A @ M))" by (simp add: tell_def f0_def)
  have p0: "pos f0 = length (content f0)" by (simp add: f0_def F)
  have w: "fwrite (zeros (nat S)) f0 = f1"
    using fwrite_append[OF p0, of Z] by (simp add: f1_def f0_def F Z_def)
  have c1: "content f1 = A @ M @ zeros (nat S)" by (simp add: f1_def Z_def)
  have mv: "mmap_move mm (int (length (A @ M)) + S) (off + S) off
              (int (length (A @ M)) - off) (content f1)
            = (if mm then Some (A @ take (nat S) (M @ zeros (nat S)) @ M) else None)"
    using mmap_move_insert[OF S, of mm A M] by (simp only: lA c1)
  have nS: "\<not> \<not> 0 < S" and nO: "\<not> \<not> 0 \<le> off" using S o0 by simp_all
  show ?thesis
  proof (cases mm)
    case True
    have mv': "mmap_move mm (int (length (A @ M)) + S) (off + S) off
              (int (length (A @ M)) - off) (content f1)
            = Some (A @ take (nat S) (M @ zeros (nat S)) @ M)"
      using mv True by simp
    have "insert_bytes mm f S off B
          = Some (None, f1\<lparr>content := A @ take (nat S) (M @ zeros (nat S)) @ M\<rparr>)"
      unfolding insert_bytes_def
      by (simp only: nS nO if_False s0 sum.case Let_def t0 w mv' option.case)
    then show ?thesis by (simp add: A_def M_def)
  next
    case False
    define f2 where "f2 = f1\<lparr>content := A @ M, pos := length (A @ M)\<rparr>"
    define f3 where "f3 = f2\<lparr>content := (A @ M) @ zeros (nat S), pos := length (A @ M) + nat S\<rparr>"
    define f4 where "f4 = f3\<lparr>pos := length (A @ M)\<rparr>"
    have tr: "ftruncate (nat (int (length (A @ M)))) f1 = f1\<lparr>content := A @ M\<rparr>"
      by (simp add: ftruncate_def f1_def zeros_def)
    have s2: "seek 0 2 (f1\<lparr>content := A @ M\<rparr>) = Inr f2"
      by (simp add: seek_end f2_def)
    have p2: "pos f2 = length (content f2)" by (simp add: f2_def)
    have pl: "pad_loop B S f2 = Some f3"
      using pad_loop_ok[OF B p2, of "nat S"] S by (simp add: f3_def f2_def)
    have s4: "seek (int (length (A @ M))) 0 f3 = Inr f4"
      by (simp add: seek_set f4_def)
    have c4: "content f4 = A @ M @ zeros (nat S)" "pos f4 = length A + length M"
      by (simp_all add: f4_def f3_def)
    have lz: "nat S \<le> length (zeros (nat S))" by simp
    from insert_move_loop_lists[OF B S c4 lz] obtain f' where
      f': "insert_move_loop B S (int (length M)) f4 = Some (None, f')"
          "content f' = A @ take (nat S) (M @ zeros (nat S)) @ M @ drop (nat S) (zeros (nat S))"
      by blast
    have ms: "int (length (A @ M)) - off = int (length M)" using lA by simp
    have mv': "mmap_move mm (int (length (A @ M)) + S) (off + S) off
              (int (length M)) (content f1) = None"
      using mv False by (simp only: ms if_False)
    have "insert_bytes mm f S off B = Some (None, f')"
      unfolding insert_bytes_def
      by (simp only: nS nO if_False s0 sum.case Let_def t0 w mv' option.case tr s2 pl s4 ms f')
    then show ?thesis using f'(2) by (simp add: A_def M_def zeros_def)
  qed
qed

lemma mmap_move_delete:
  assumes "0 < length M" "int (length D) = S"
  shows "mmap_move mm (int (length (A @ D @ M))) (int (length A)) (int (length A) + S)
           (int (length (A @ D @ M)) - int (length A) - S) (A @ D @ M)
         = (if mm then Some (A @ M @ drop (length M) (D @ M)) else None)"
proof -
  have cnt: "int (length (A @ D @ M)) - int (length A) - S = int (length M)"
    using assms by simp
  have src: "nat (int (length A) + S) = length (A @ D)" using assms by auto
  have t2: "take (length M) (drop (length (A @ D)) ((A @ D) @ M)) = M"
    by (simp only: drop_append) simp
  have t3: "drop (length A + length M) (A @ D @ M) = drop (length M) (D @ M)"
    by simp
  have pos: "\<not> int (length (A @ D @ M)) \<le> 0"
  proof -
    have "1 \<le> length M" using assms(1) by linarith
    then have "1 \<le> length (A @ D @ M)" by simp
    then show ?thesis by linarith
  qed
  have rng: "\<not> int (length (A @ D @ M)) < int (length (A @ D)) + int (length M)"
            "\<not> int (length (A @ D @ M)) < int (length A) + int (length M)"
            "\<not> int (length A) + S < 0"
    using assms(2)[symmetric] by simp_all
  have src': "int (length A) + S = int (length (A @ D))" using assms by simp
  show ?thesis unfolding cnt
    apply (simp only: mmap_move_def pos rng src' nat_int)
    using t2 t3 apply (simp del: drop_append take_append length_append)
    apply (simp only: length_append)
    apply simp
    done
qed

lemma delete_bytes_ok:
  assumes B: "0 < B" and S: "0 < S" and o0: "0 \<le> off"
      and o1: "off + S \<le> int (length (content f))"
  shows "\<exists>f'. delete_bytes mm f S off B = Some (None, f')
          \<and> content f' = take (nat off) (content f) @ drop (nat off + nat S) (content f)"
proof -
  define A where "A = take (nat off) (content f)"
  define D where "D = take (nat S) (drop (nat off) (content f))"
  define M where "M = drop (nat off + nat S) (content f)"
  have F: "content f = A @ D @ M"
    by (simp add: A_def D_def M_def add.commute) (metis append_take_drop_id drop_drop)
  have lA: "int (length A) = off" using o0 o1 S by (simp add: A_def)
  have lD: "int (length D) = S" using o0 o1 S by (simp add: D_def)
  define f0 where "f0 = f\<lparr>pos := length (A @ D @ M)\<rparr>"
  have s0: "seek 0 2 f = Inr f0" by (simp add: seek_end f0_def F)
  have t0: "int (tell f0) = int (length (A @ D @ M))" by (simp add: tell_def f0_def)
  have c0: "content f0 = A @ D @ M" by (simp add: f0_def F)
  have ms: "int (length (A @ D @ M)) - off - S = int (length M)" using lA lD by simp
  have nS: "\<not> \<not> 0 < S" and nO: "\<not> \<not> 0 \<le> off" and nM: "\<not> \<not> 0 \<le> int (length M)"
    using S o0 by simp_all
  have fs: "nat (int (length (A @ D @ M)) - S) = length (A @ M)" using lD by auto
  have trunc: "content g = A @ M @ drop (length M) (D @ M) \<Longrightarrow>
               content (ftruncate (length (A @ M)) g) = A @ M" for g
    by (simp add: ftruncate_def zeros_def)
  have "\<exists>g. (if 0 < int (length M)
              then (case mmap_move mm (int (length (A @ D @ M))) off (off + S) (int (length M))
                           (content f0) of
                      Some c \<Rightarrow> Some (None, f0\<lparr>content := c\<rparr>)
                    | None \<Rightarrow> delete_move_loop B S off f0)
              else Some (None, f0)) = Some (None, g)
            \<and> content g = A @ M @ drop (length M) (D @ M)"
  proof (cases "M = []")
    case True
    then show ?thesis using c0 by (simp del: drop_append)
  next
    case False
    then have lM: "0 < length M" by simp
    have mv: "mmap_move mm (int (length (A @ D @ M))) off (off + S) (int (length M)) (content f0)
              = (if mm then Some (A @ M @ drop (length M) (D @ M)) else None)"
      using mmap_move_delete[OF lM lD, of mm A] by (simp only: lA c0 ms)
    have lD': "length D = nat S" using lD by auto
    from delete_move_loop_lists[OF B c0 lD'] S obtain f' where
      f': "delete_move_loop B S (int (length A)) f0 = Some (None, f')"
          "content f' = A @ M @ drop (length M) (D @ M)"
      by auto
    have lM': "0 < int (length M)" using lM by simp
    show ?thesis
    proof (cases mm)
      case True
      have mv': "mmap_move mm (int (length (A @ D @ M))) off (off + S) (int (length M)) (content f0)
              = Some (A @ M @ drop (length M) (D @ M))" using mv True by simp
      show ?thesis
        by (simp only: lM' if_True mv' option.case) (simp del: drop_append)
    next
      case False
      have mv': "mmap_move mm (int (length (A @ D @ M))) off (off + S) (int (length M)) (content f0)
              = None" using mv False by simp
      have f'': "delete_move_loop B S off f0 = Some (None, f')" using f'(1) lA by simp
      show ?thesis using f'(2)
        by (simp only: lM' if_True mv' option.case f'') (simp del: drop_append)
    qed
  qed
  then obtain g where
    g: "(if 0 < int (length M)
              then (case mmap_move mm (int (length (A @ D @ M))) off (off + S) (int (length M))
                           (content f0) of
                      Some c \<Rightarrow> Some (None, f0\<lparr>content := c\<rparr>)
                    | None \<Rightarrow> delete_move_loop B S off f0)
              else Some (None, f0)) = Some (None, g)"
       "content g = A @ M @ drop (length M) (D @ M)"
    by blast
  have "delete_bytes mm f S off B = Some (None, ftruncate (length (A @ M)) g)"
    unfolding delete_bytes_def
    by (simp only: nS nO if_False s0 sum.case Let_def t0 ms nM g option.case prod.case fs)
  then show ?thesis using trunc[OF g(2)] by (simp add: A_def M_def)
qed


lemma mmap_move_negative: "count < 0 \<Longrightarrow> mmap_move mm len dest src count c = None"
  by (simp add: mmap_move_def)

lemma insert_bytes_beyond:
  assumes "int (length (content f)) < off"
  shows "insert_bytes True f S off B = insert_bytes False f S off B"
proof -
  have "seek 0 2 f = Inr (f\<lparr>pos := length (content f)\<rparr>)" by (simp add: seek_end)
  moreover have "int (tell (f\<lparr>pos := length (content f)\<rparr>)) - off < 0"
    using assms by (simp add: tell_def)
  ultimately show ?thesis
    unfolding insert_bytes_def by (simp only: Let_def sum.case mmap_move_negative)
qed

lemma insert_bytes_rejected:
  "\<not> (0 < S \<and> 0 \<le> off) \<Longrightarrow> insert_bytes mm f S off B = Some (Some AssertionError, f)"
  by (auto simp: insert_bytes_def)

lemma delete_bytes_rejected:
  "\<not> (0 < S \<and> 0 \<le> off \<and> off + S \<le> int (length (content f))) \<Longrightarrow>
   \<exists>f'. delete_bytes mm f S off B = Some (Some AssertionError, f') \<and> content f' = content f"
  by (auto simp: delete_bytes_def seek_def tell_def Let_def)


text \<open>
  Claim C2: for every file, size and offset, and every positive buffer size, the streaming
  fallback (no usable mmap) and the mapped block move give the same outcome: the same
  exception or none, and exactly the same final file contents.  This holds for
  \<open>insert_bytes\<close> and for \<open>delete_bytes\<close>, also on the arguments they reject.
\<close>

theorem strategies_equivalent:
  assumes B: "0 < B"
  shows "outcome (insert_bytes True f S off B) = outcome (insert_bytes False f S off B)
       \<and> outcome (delete_bytes True f S off B) = outcome (delete_bytes False f S off B)"
proof
  show "outcome (insert_bytes True f S off B) = outcome (insert_bytes False f S off B)"
  proof (cases "0 < S \<and> 0 \<le> off")
    case False
    then show ?thesis by (simp add: insert_bytes_rejected)
  next
    case ok: True
    show ?thesis
    proof (cases "off \<le> int (length (content f))")
      case True
      from insert_bytes_ok[OF B _ _ True, of S True] insert_bytes_ok[OF B _ _ True, of S False] ok
      show ?thesis by (auto simp: outcome_def)
    next
      case False
      then show ?thesis by (simp add: insert_bytes_beyond)
    qed
  qed
next
  show "outcome (delete_bytes True f S off B) = outcome (delete_bytes False f S off B)"
  proof (cases "0 < S \<and> 0 \<le> off \<and> off + S \<le> int (length (content f))")
    case False
    from delete_bytes_rejected[OF False, of True B] delete_bytes_rejected[OF False, of False B]
    show ?thesis by (auto simp: outcome_def)
  next
    case True
    then have a: "0 < S" "0 \<le> off" "off + S \<le> int (length (content f))" by simp_all
    from delete_bytes_ok[OF B a, of True] delete_bytes_ok[OF B a, of False]
    show ?thesis by (auto simp: outcome_def)
  qed
qed

text \<open>
  Claim C1: for a positive size and an offset within the file, \<open>insert_bytes\<close>
  followed by \<open>delete_bytes\<close> with the same size and offset returns normally and
  restores the file byte for byte, whichever strategy each of them uses.  Each operation
  alone keeps the bytes outside the range: after the insertion the bytes before
  \<open>offset\<close> are in place and the bytes from \<open>offset\<close> on follow the gap; after a
  deletion (on any file \<open>g\<close> that contains the range) the bytes before \<open>offset\<close>
  are in place and the bytes after the range follow them.
\<close>

theorem splice_roundtrip:
  assumes B: "0 < B" and S: "0 < S" and o0: "0 \<le> off"
      and o1: "off \<le> int (length (content f))"
      and o2: "off + S \<le> int (length (content g))"
  shows "\<exists>f1 f2 g1.
           insert_bytes m1 f S off B = Some (None, f1)
         \<and> delete_bytes m2 f1 S off B = Some (None, f2)
         \<and> content f2 = content f
         \<and> length (content f1) = length (content f) + nat S
         \<and> take (nat off) (content f1) = take (nat off) (content f)
         \<and> drop (nat off + nat S) (content f1) = drop (nat off) (content f)
         \<and> delete_bytes m2 g S off B = Some (None, g1)
         \<and> length (content g1) + nat S = length (content g)
         \<and> take (nat off) (content g1) = take (nat off) (content g)
         \<and> drop (nat off) (content g1) = drop (nat off + nat S) (content g)"
proof -
  define A where "A = take (nat off) (content f)"
  define M where "M = drop (nat off) (content f)"
  define G where "G = take (nat S) (M @ zeros (nat S))"
  have lA: "length A = nat off" using o0 o1 by (simp add: A_def)
  have lG: "length G = nat S" by (simp add: G_def)
  from insert_bytes_ok[OF B S o0 o1, of m1] obtain f1 where
    f1: "insert_bytes m1 f S off B = Some (None, f1)" "content f1 = A @ G @ M"
    by (auto simp: A_def M_def G_def)
  have l1: "off + S \<le> int (length (content f1))"
    using f1(2) lA lG o0 S by simp
  from delete_bytes_ok[OF B S o0 l1, of m2] obtain f2 where
    f2: "delete_bytes m2 f1 S off B = Some (None, f2)"
        "content f2 = take (nat off) (content f1) @ drop (nat off + nat S) (content f1)"
    by blast
  have t1: "take (nat off) (content f1) = A" using f1(2) lA by simp
  have d1: "drop (nat off + nat S) (content f1) = M" using f1(2) lA lG by simp
  have AM: "A @ M = content f" by (simp add: A_def M_def)
  from delete_bytes_ok[OF B S o0 o2, of m2] obtain g1 where
    g1: "delete_bytes m2 g S off B = Some (None, g1)"
        "content g1 = take (nat off) (content g) @ drop (nat off + nat S) (content g)"
    by blast
  have lg: "nat off + nat S \<le> length (content g)" using o2 o0 S by linarith
  have gl: "length (content g1) + nat S = length (content g)"
    using lg by (simp add: g1(2) min_absorb2)
  have gt: "take (nat off) (content g1) = take (nat off) (content g)"
    using lg by (simp add: g1(2) min_absorb2)
  have gd: "drop (nat off) (content g1) = drop (nat off + nat S) (content g)"
    using lg by (simp add: g1(2) min_absorb2)
  have fl: "length (content f1) = length (content f) + nat S"
    using f1(2) lG AM[symmetric] by simp
  show ?thesis
    using f1(1) f2(1) g1(1) gl gt gd fl t1 d1 AM f2(2)
    by (simp add: A_def M_def)
qed


theorem splice_roundtrip_witness:
  "\<exists>f1 f2 g1.
       insert_bytes False (open_file ''abcdef'') 2 3 2 = Some (None, f1)
     \<and> delete_bytes True f1 2 3 2 = Some (None, f2)
     \<and> content f2 = ''abcdef''
     \<and> take 3 (content f1) = ''abc''
     \<and> drop 5 (content f1) = ''def''
     \<and> delete_bytes True (open_file ''abcdefgh'') 2 3 2 = Some (None, g1)
     \<and> take 3 (content g1) = ''abc''
     \<and> drop 3 (content g1) = ''fgh''"
  using splice_roundtrip [of 2 2 3 "open_file ''abcdef''" "open_file ''abcdefgh''" False True]
  by (simp add: open_file_def) blast

theorem strategies_equivalent_witness:
  "outcome (insert_bytes True (open_file ''abcdef'') 2 3 2)
     = outcome (insert_bytes False (open_file ''abcdef'') 2 3 2)
   \<and> outcome (delete_bytes True (open_file ''abcdef'') 2 3 2)
     = outcome (delete_bytes False (open_file ''abcdef'') 2 3 2)"
  using strategies_equivalent [of 2 "open_file ''abcdef''" 2 3]
  by simp

text \<open>
  Claim C5 says that \<open>insert_bytes\<close> rejects an offset beyond the end of the file and
  leaves the file unchanged.  It does not: on the two-byte file \<open>ab\<close>, size 1 and
  offset 3 the call returns normally, under either strategy, and the file has grown by
  one zero byte.  (\<open>delete_bytes\<close> asserts \<open>0 <= movesize\<close>; \<open>insert_bytes\<close> computes
  its \<open>movesize\<close> the same way and never checks it.)
\<close>

theorem insert_bytes_past_end:
  "insert_bytes mm (open_file ''ab'') 1 3 65536
     = Some (None, \<lparr>content = ''ab'' @ [CHR 0x00], pos = 3, reads = [(3, - 1)]\<rparr>)"
  by (simp add: insert_bytes_def open_file_def seek_def tell_def fwrite_def zeros_def
        mmap_move_def ftruncate_def read_def Let_def
        pad_loop.simps insert_move_loop.simps)

section \<open>The tag object: one entry per case-folded key\<close>

















section \<open>The locator\<close>






















end
